theory Spec2Isabelle
  imports Complex_Main
begin

section \<open>JavaScript numbers\<close>

text \<open>
  A JavaScript number is an IEEE 754 binary64 value. The finite ones are modelled by the
  rational they denote, the others by constructors of their own. The two zeros are one
  value here: the program only adds, subtracts, multiplies, divides by the literal 2 and
  formats, and none of these tells the zeros apart (\<open>(-0).toFixed(2)\<close> is \<open>"0.00"\<close>).
\<close>

datatype jsnum = Num rat | NaN | PosInf | NegInf

text \<open>Number of binary digits of a positive integer (0 for the others).\<close>

function bits :: "int \<Rightarrow> nat" where
  "bits n = (if n \<le> 0 then 0 else Suc (bits (n div 2)))"
  by auto
termination
  by (relation "measure nat") auto

declare bits.simps [simp del]

definition pow2 :: "int \<Rightarrow> rat" where
  "pow2 e = (if 0 \<le> e then 2 ^ nat e else 1 / 2 ^ nat (- e))"

text \<open>
  The binary exponent of a positive rational: the \<open>e\<close> with \<open>2^e \<le> a < 2^(e+1)\<close>.
  From 1 on it is read off the integer part; below 1, \<open>2^-k\<close> is the least power of two
  that is not below \<open>1 / a\<close>.
\<close>

definition ilog2 :: "rat \<Rightarrow> int" where
  "ilog2 a =
     (if 1 \<le> a then int (bits \<lfloor>a\<rfloor>) - 1
      else - int (bits (\<lceil>1 / a\<rceil> - 1)))"

text \<open>Round to the nearest integer, ties to the even one.\<close>

definition round_half_even :: "rat \<Rightarrow> int" where
  "round_half_even x =
     (let f = \<lfloor>x\<rfloor>; d = x - of_int f
      in if d < 1 / 2 then f
         else if 1 / 2 < d then f + 1
         else if even f then f else f + 1)"

text \<open>
  Rounding of an exact result to binary64 (round to nearest, ties to even): 53 significant
  bits, the exponent not below -1022 (so the subnormal numbers are multiples of
  \<open>2^-1074\<close>), overflow to an infinity from \<open>2^1024\<close> on.
\<close>

definition round_double :: "rat \<Rightarrow> jsnum" where
  "round_double q =
     (if q = 0 then Num 0
      else
        let a = \<bar>q\<bar>;
            e = max (ilog2 a) (- 1022);
            ulp = pow2 (e - 52);
            r = of_int (round_half_even (a / ulp)) * ulp
        in if pow2 1024 \<le> r then (if q < 0 then NegInf else PosInf)
           else Num (if q < 0 then - r else r))"

text \<open>The operators \<open>*\<close>, \<open>+\<close>, \<open>-\<close>, \<open>/\<close> and unary minus on numbers.\<close>

fun js_neg :: "jsnum \<Rightarrow> jsnum" where
  "js_neg (Num a) = Num (- a)"
| "js_neg NaN = NaN"
| "js_neg PosInf = NegInf"
| "js_neg NegInf = PosInf"

fun js_mul :: "jsnum \<Rightarrow> jsnum \<Rightarrow> jsnum" where
  "js_mul (Num a) (Num b) = round_double (a * b)"
| "js_mul NaN _ = NaN"
| "js_mul _ NaN = NaN"
| "js_mul (Num a) PosInf = (if a = 0 then NaN else if 0 < a then PosInf else NegInf)"
| "js_mul (Num a) NegInf = (if a = 0 then NaN else if 0 < a then NegInf else PosInf)"
| "js_mul PosInf (Num b) = (if b = 0 then NaN else if 0 < b then PosInf else NegInf)"
| "js_mul NegInf (Num b) = (if b = 0 then NaN else if 0 < b then NegInf else PosInf)"
| "js_mul PosInf PosInf = PosInf"
| "js_mul PosInf NegInf = NegInf"
| "js_mul NegInf PosInf = NegInf"
| "js_mul NegInf NegInf = PosInf"

fun js_add :: "jsnum \<Rightarrow> jsnum \<Rightarrow> jsnum" where
  "js_add (Num a) (Num b) = round_double (a + b)"
| "js_add NaN _ = NaN"
| "js_add _ NaN = NaN"
| "js_add PosInf NegInf = NaN"
| "js_add NegInf PosInf = NaN"
| "js_add PosInf _ = PosInf"
| "js_add NegInf _ = NegInf"
| "js_add (Num a) PosInf = PosInf"
| "js_add (Num a) NegInf = NegInf"

definition js_sub :: "jsnum \<Rightarrow> jsnum \<Rightarrow> jsnum" where
  "js_sub a b = js_add a (js_neg b)"

text \<open>
  Division. A zero divisor is read as the positive zero; the program's only divisor is the
  literal 2.
\<close>

fun js_div :: "jsnum \<Rightarrow> jsnum \<Rightarrow> jsnum" where
  "js_div (Num a) (Num b) =
     (if b = 0 then (if a = 0 then NaN else if 0 < a then PosInf else NegInf)
      else round_double (a / b))"
| "js_div NaN _ = NaN"
| "js_div _ NaN = NaN"
| "js_div (Num a) PosInf = Num 0"
| "js_div (Num a) NegInf = Num 0"
| "js_div PosInf (Num b) = (if b < 0 then NegInf else PosInf)"
| "js_div NegInf (Num b) = (if b < 0 then PosInf else NegInf)"
| "js_div PosInf PosInf = NaN"
| "js_div PosInf NegInf = NaN"
| "js_div NegInf PosInf = NaN"
| "js_div NegInf NegInf = NaN"

section \<open>Number formatting and parsing\<close>

definition digit_char :: "int \<Rightarrow> char" where
  "digit_char d = char_of (48 + d)"

text \<open>
  The decimal digits of an integer that is not negative, most significant first, no
  leading zero.
\<close>

function digits :: "int \<Rightarrow> string" where
  "digits n = (if n < 10 then [digit_char n] else digits (n div 10) @ [digit_char (n mod 10)])"
  by auto
termination
  by (relation "measure nat") auto

declare digits.simps [simp del]

text \<open>
  \<open>Number.prototype.toFixed\<close> called with \<open>fractionDigits = 2\<close>, after ECMAScript
  21.1.3.3: a value that is not finite prints as its name; otherwise the sign is split
  off, \<open>n\<close> is the integer for which \<open>n / 100\<close> is nearest to the exact value (the larger
  one at a tie), its digits are padded with zeros on the left to three, and the point goes
  before the last two. From \<open>10^21\<close> on the result is that of \<open>Number::toString\<close>, which
  is a parameter here.
\<close>

definition toFixed2 :: "(rat \<Rightarrow> string) \<Rightarrow> jsnum \<Rightarrow> string" where
  "toFixed2 numberToString v =
     (case v of
        NaN \<Rightarrow> ''NaN''
      | PosInf \<Rightarrow> ''Infinity''
      | NegInf \<Rightarrow> ''-Infinity''
      | Num q \<Rightarrow>
          let s = (if q < 0 then ''-'' else '''');
              x = \<bar>q\<bar>
          in if 10 ^ 21 \<le> x then s @ numberToString x
             else
               let n = \<lfloor>x * 100 + 1 / 2\<rfloor>;
                   m = digits n;
                   k = length m;
                   m' = (if k \<le> 2 then replicate (3 - k) (CHR ''0'') @ m else m);
                   k' = length m'
               in s @ take (k' - 2) m' @ ''.'' @ drop (k' - 2) m')"

text \<open>
  \<open>parseInt(string, 10)\<close>, after ECMAScript 19.2.5: leading white space is skipped, one
  sign is read, then the longest prefix of decimal digits; no digit gives \<open>NaN\<close>.
  Characters are bytes here, so the white space is the ASCII one.
\<close>

definition is_space :: "char \<Rightarrow> bool" where
  "is_space c = (c \<in> set [CHR '' '', CHR 0x09, CHR 0x0A, CHR 0x0B, CHR 0x0C, CHR 0x0D])"

definition is_digit :: "char \<Rightarrow> bool" where
  "is_digit c = ((48::nat) \<le> of_char c \<and> of_char c \<le> (57::nat))"

definition digits_value :: "string \<Rightarrow> int" where
  "digits_value z = foldl (\<lambda>acc c. 10 * acc + (of_char c - 48)) 0 z"

definition parseInt10 :: "string \<Rightarrow> jsnum" where
  "parseInt10 str =
     (let s = dropWhile is_space str;
          negative = (s \<noteq> [] \<and> hd s = CHR ''-'');
          s' = (if s \<noteq> [] \<and> (hd s = CHR ''+'' \<or> hd s = CHR ''-'') then tl s else s);
          z = takeWhile is_digit s'
      in if z = [] then NaN
         else if negative then js_neg (round_double (of_int (digits_value z)))
         else round_double (of_int (digits_value z)))"

section \<open>The drawing surface\<close>

text \<open>
  The 2D context of the canvas: the attributes the program sets, the size of its canvas,
  and the drawing calls it has received, oldest first. A call is recorded with its
  arguments and with the attributes that paint it at that moment. The transform is never
  changed by the program, so a rectangle is in canvas coordinates.
\<close>

datatype draw_call =
    ClearRect jsnum jsnum jsnum jsnum
  | StrokeRect string jsnum jsnum jsnum jsnum jsnum
  | FillRect string jsnum jsnum jsnum jsnum
  | FillText string string string string jsnum jsnum

text \<open>
  \<open>StrokeRect strokeStyle lineWidth x y w h\<close>, \<open>FillRect fillStyle x y w h\<close>,
  \<open>FillText fillStyle font textBaseline text x y\<close>.
\<close>

record ctx2d =
  canvas_width :: nat
  canvas_height :: nat
  strokeStyle :: string
  lineWidth :: jsnum
  textBaseline :: string
  font :: string
  fillStyle :: string
  calls :: "draw_call list"

definition clearRect :: "jsnum \<Rightarrow> jsnum \<Rightarrow> jsnum \<Rightarrow> jsnum \<Rightarrow> ctx2d \<Rightarrow> ctx2d" where
  "clearRect x y w h ctx = ctx\<lparr>calls := calls ctx @ [ClearRect x y w h]\<rparr>"

definition strokeRect :: "jsnum \<Rightarrow> jsnum \<Rightarrow> jsnum \<Rightarrow> jsnum \<Rightarrow> ctx2d \<Rightarrow> ctx2d" where
  "strokeRect x y w h ctx =
     ctx\<lparr>calls := calls ctx @ [StrokeRect (strokeStyle ctx) (lineWidth ctx) x y w h]\<rparr>"

definition fillRect :: "jsnum \<Rightarrow> jsnum \<Rightarrow> jsnum \<Rightarrow> jsnum \<Rightarrow> ctx2d \<Rightarrow> ctx2d" where
  "fillRect x y w h ctx = ctx\<lparr>calls := calls ctx @ [FillRect (fillStyle ctx) x y w h]\<rparr>"

definition fillText :: "string \<Rightarrow> jsnum \<Rightarrow> jsnum \<Rightarrow> ctx2d \<Rightarrow> ctx2d" where
  "fillText t x y ctx =
     ctx\<lparr>calls := calls ctx @ [FillText (fillStyle ctx) (font ctx) (textBaseline ctx) t x y]\<rparr>"

text \<open>
  What the browser supplies to the renderer: the width \<open>measureText\<close> reports for a text
  in a font, and \<open>Number::toString\<close> for the magnitudes \<open>toFixed\<close> hands over to it.
\<close>

record browser =
  measureText :: "string \<Rightarrow> string \<Rightarrow> jsnum"
  numberToString :: "rat \<Rightarrow> string"

section \<open>Predictions and the overlay renderer\<close>

text \<open>
  A prediction of the detector: \<open>{class, score, bbox: [x, y, width, height]}\<close>. The
  field \<open>class\<close> is \<open>class_name\<close> here.
\<close>

record prediction =
  class_name :: string
  score :: jsnum
  bbox :: "jsnum \<times> jsnum \<times> jsnum \<times> jsnum"

definition bbox0 :: "prediction \<Rightarrow> jsnum" where
  "bbox0 p = fst (bbox p)"

definition bbox1 :: "prediction \<Rightarrow> jsnum" where
  "bbox1 p = fst (snd (bbox p))"

definition bbox2 :: "prediction \<Rightarrow> jsnum" where
  "bbox2 p = fst (snd (snd (bbox p)))"

definition bbox3 :: "prediction \<Rightarrow> jsnum" where
  "bbox3 p = snd (snd (snd (bbox p)))"

datatype js_error = TypeError

text \<open>The body of the \<open>forEach\<close> callback of \<open>drawBBox\<close>, for one prediction.\<close>

definition predictionText :: "browser \<Rightarrow> prediction \<Rightarrow> string" where
  "predictionText env p =
     class_name p @ '' '' @ toFixed2 (numberToString env) (js_mul (score p) (Num 100))"

definition draw_prediction :: "browser \<Rightarrow> ctx2d \<Rightarrow> prediction \<Rightarrow> ctx2d" where
  "draw_prediction env ctx p =
     (let txt = predictionText env p;
          widthText = measureText env (font ctx) txt;
          heightText = parseInt10 (font ctx);
          ctx1 = strokeRect (bbox0 p) (bbox1 p) (bbox2 p) (bbox3 p) ctx;
          ctx2 = ctx1\<lparr>fillStyle := ''#0F0''\<rparr>;
          ctx3 = fillRect (js_sub (bbox0 p) (js_div (lineWidth ctx2) (Num 2))) (bbox1 p)
                   (js_add widthText (lineWidth ctx2)) (js_neg heightText) ctx2;
          ctx4 = ctx3\<lparr>fillStyle := ''#00F''\<rparr>
      in fillText txt (bbox0 p) (bbox1 p) ctx4)"

text \<open>
  \<open>drawBBox\<close>. Its argument \<open>refCanvas_current\<close> is the 2D context behind
  \<open>refCanvas.current\<close>, \<open>None\<close> while the ref holds \<open>null\<close>, where the call of
  \<open>getContext\<close> throws. The attributes read back as assigned.
\<close>

definition drawBBox :: "browser \<Rightarrow> ctx2d option \<Rightarrow> prediction list \<Rightarrow> js_error + ctx2d" where
  "drawBBox env refCanvas_current predictions =
     (case refCanvas_current of
        None \<Rightarrow> Inl TypeError
      | Some ctx \<Rightarrow>
          let ctx1 = clearRect (Num 0) (Num 0)
                       (Num (of_nat (canvas_width ctx))) (Num (of_nat (canvas_height ctx))) ctx;
              ctx2 = ctx1\<lparr>strokeStyle := ''red''\<rparr>;
              ctx3 = ctx2\<lparr>lineWidth := Num 4\<rparr>;
              ctx4 = ctx3\<lparr>textBaseline := ''bottom''\<rparr>;
              ctx5 = ctx4\<lparr>font := ''12px sans-serif''\<rparr>
          in Inr (foldl (draw_prediction env) ctx5 predictions))"

section \<open>The component: initialisation and the detection loop\<close>

text \<open>
  A promise is pending, fulfilled or rejected, and settles once.
\<close>

datatype promise = Pending | Fulfilled | Rejected

text \<open>
  What the component does to the outside, in the order it does it: \<open>console.log\<close>,
  \<open>alert\<close> with its message, \<open>console.error\<close>, a call of \<open>model.detect\<close> (numbered
  in the order of the calls), a call of \<open>requestAnimationFrame\<close>, and a call of
  \<open>drawBBox\<close> with its predictions.
\<close>

datatype effect =
    ConsoleLog
  | Alert string
  | ConsoleError
  | ModelDetect nat
  | RequestAnimationFrame
  | DrawBBox "prediction list"

text \<open>
  The state of one mounted component. \<open>promiseModel\<close> is the promise of
  \<open>cocoSsd.load\<close>; \<open>getUserMedia\<close> the promise returned by the call of that name,
  \<open>metadataPromise\<close> the promise whose \<open>resolve\<close> is installed as
  \<open>onloadedmetadata\<close>, \<open>promiseCamera\<close> the end of the \<open>then\<close>/\<open>catch\<close> chain and
  \<open>promiseAll\<close> the promise of \<open>Promise.all\<close>, each \<open>None\<close> until the code creates it.
  \<open>detecting\<close> lists the calls of \<open>model.detect\<close> that have not settled,
  \<open>detect_count\<close> counts the calls made, \<open>animation_frames\<close> the callbacks requested
  and not yet run. The component has no state and takes no props, so it is rendered once
  and its effect runs once; the two refs are attached from the mounting on.
\<close>

record app =
  promiseModel :: promise
  getUserMedia :: "promise option"
  metadataPromise :: "promise option"
  promiseCamera :: "promise option"
  promiseAll :: "promise option"
  detecting :: "nat list"
  detect_count :: nat
  animation_frames :: nat
  refCanvas :: "ctx2d option"
  effects :: "effect list"

text \<open>
  \<open>detectionFunction(video, model)\<close>: the call of \<open>model.detect(video)\<close> with its
  \<open>then\<close> callback, and after it the call of \<open>requestAnimationFrame\<close>. The detector
  answers with a promise; what becomes of it is an event of its own. The two arguments
  are handed on unchanged to the next call, so the model leaves them out.
\<close>

definition detectionFunction :: "app \<Rightarrow> app" where
  "detectionFunction s =
     (let s1 = s\<lparr>detecting := detecting s @ [detect_count s],
                  detect_count := Suc (detect_count s),
                  effects := effects s @ [ModelDetect (detect_count s)]\<rparr>
      in s1\<lparr>animation_frames := Suc (animation_frames s1),
             effects := effects s1 @ [RequestAnimationFrame]\<rparr>)"

text \<open>
  The reactions of
  \<open>Promise.all([promiseModel, promiseCamera]).then(values => detectionFunction(...)).catch(error => console.error(error))\<close>:
  it rejects as soon as one of the two is rejected, and is fulfilled once both are.
\<close>

definition Promise_all :: "app \<Rightarrow> app" where
  "Promise_all s =
     (if promiseAll s \<noteq> Some Pending then s
      else if promiseModel s = Rejected \<or> promiseCamera s = Some Rejected
      then s\<lparr>promiseAll := Some Rejected, effects := effects s @ [ConsoleError]\<rparr>
      else if promiseModel s = Fulfilled \<and> promiseCamera s = Some Fulfilled
      then detectionFunction (s\<lparr>promiseAll := Some Fulfilled\<rparr>)
      else s)"

text \<open>
  The first rendering of \<open>App\<close> in a window of the given size: the model starts to load,
  and the canvas is mounted with the size of the window and a fresh context.
\<close>

definition App :: "nat \<Rightarrow> nat \<Rightarrow> app" where
  "App widthWindow heightWindow =
     \<lparr>promiseModel = Pending,
      getUserMedia = None,
      metadataPromise = None,
      promiseCamera = None,
      promiseAll = None,
      detecting = [],
      detect_count = 0,
      animation_frames = 0,
      refCanvas = Some \<lparr>canvas_width = widthWindow, canvas_height = heightWindow,
                         strokeStyle = ''#000000'', lineWidth = Num 1,
                         textBaseline = ''alphabetic'', font = ''10px sans-serif'',
                         fillStyle = ''#000000'', calls = []\<rparr>,
      effects = []\<rparr>"

text \<open>
  The callback of \<open>useEffect\<close>. Reading \<open>navigator.mediaDevices.getUserMedia\<close> throws
  where \<open>navigator.mediaDevices\<close> is undefined; where the method is missing the callback
  does nothing; otherwise it asks for the camera and joins the two promises.
\<close>

datatype navigator = NoMediaDevices | NoGetUserMedia | HasGetUserMedia

definition useEffect :: "navigator \<Rightarrow> app \<Rightarrow> js_error + app" where
  "useEffect nav s =
     (case nav of
        NoMediaDevices \<Rightarrow> Inl TypeError
      | NoGetUserMedia \<Rightarrow> Inr s
      | HasGetUserMedia \<Rightarrow>
          Inr (Promise_all (s\<lparr>getUserMedia := Some Pending,
                                promiseCamera := Some Pending,
                                promiseAll := Some Pending\<rparr>)))"

text \<open>
  What the browser and the detector do to the component afterwards. An event that cannot
  happen in a state (a promise settling twice, a frame nobody requested, an answer to a
  call that is not open) leaves the state as it is. The jobs a settled promise queues
  run before the next event, and are part of the step.
\<close>

datatype event =
    GetUserMediaFulfilled
  | GetUserMediaRejected
  | LoadedMetadata
  | ModelLoadFulfilled
  | ModelLoadRejected
  | AnimationFrame
  | DetectFulfilled nat "prediction list"
  | DetectRejected nat

fun step :: "browser \<Rightarrow> app \<Rightarrow> event \<Rightarrow> app" where
  "step env s GetUserMediaFulfilled =
     (if getUserMedia s = Some Pending
      then s\<lparr>getUserMedia := Some Fulfilled, metadataPromise := Some Pending\<rparr>
      else s)"
| "step env s GetUserMediaRejected =
     (if getUserMedia s = Some Pending
      then Promise_all
             (s\<lparr>getUserMedia := Some Rejected,
                effects := effects s
                  @ [ConsoleLog, Alert ''Activate your camera and refresh the page!''],
                promiseCamera := Some Fulfilled\<rparr>)
      else s)"
| "step env s LoadedMetadata =
     (if metadataPromise s = Some Pending
      then Promise_all (s\<lparr>metadataPromise := Some Fulfilled, promiseCamera := Some Fulfilled\<rparr>)
      else s)"
| "step env s ModelLoadFulfilled =
     (if promiseModel s = Pending then Promise_all (s\<lparr>promiseModel := Fulfilled\<rparr>) else s)"
| "step env s ModelLoadRejected =
     (if promiseModel s = Pending then Promise_all (s\<lparr>promiseModel := Rejected\<rparr>) else s)"
| "step env s AnimationFrame =
     (if 0 < animation_frames s
      then detectionFunction (s\<lparr>animation_frames := animation_frames s - 1\<rparr>)
      else s)"
| "step env s (DetectFulfilled i predictions) =
     (if i \<in> set (detecting s)
      then
        let s1 = s\<lparr>detecting := removeAll i (detecting s),
                     effects := effects s @ [DrawBBox predictions]\<rparr>
        in case drawBBox env (refCanvas s1) predictions of
             Inl e \<Rightarrow> s1
           | Inr ctx \<Rightarrow> s1\<lparr>refCanvas := Some ctx\<rparr>
      else s)"
| "step env s (DetectRejected i) =
     (if i \<in> set (detecting s) then s\<lparr>detecting := removeAll i (detecting s)\<rparr> else s)"

definition run :: "browser \<Rightarrow> app \<Rightarrow> event list \<Rightarrow> app" where
  "run env s es = foldl (step env) s es"

text \<open>
  The component after its first rendering in a window of the given size and after its
  effect, in a browser that has \<open>getUserMedia\<close>.
\<close>

definition mounted :: "nat \<Rightarrow> nat \<Rightarrow> app" where
  "mounted w h = (case useEffect HasGetUserMedia (App w h) of Inr s \<Rightarrow> s | Inl e \<Rightarrow> App w h)"

text \<open>
  The same in any browser. Where the effect throws, because \<open>navigator.mediaDevices\<close> is
  undefined, it has done nothing before: the component is left as rendered, the model
  still loading and no handler on its promise.
\<close>

definition after_effect :: "navigator \<Rightarrow> nat \<Rightarrow> nat \<Rightarrow> app" where
  "after_effect nav w h = (case useEffect nav (App w h) of Inr s \<Rightarrow> s | Inl e \<Rightarrow> App w h)"

text \<open>
  A browser for concrete runs: every character is 6 pixels wide in every font, and
  \<open>Number::toString\<close> is never reached by the values of these runs.
\<close>

definition fixed_width_browser :: browser where
  "fixed_width_browser =
     \<lparr>measureText = (\<lambda>fnt txt. Num (6 * of_nat (length txt))),
      numberToString = (\<lambda>x. ''1e+21'')\<rparr>"

section \<open>Invariants of a session\<close>

text \<open>The effects that only the detection loop produces.\<close>

fun loop_effect :: "effect \<Rightarrow> bool" where
  "loop_effect (ModelDetect i) = True"
| "loop_effect RequestAnimationFrame = True"
| "loop_effect (DrawBBox ps) = True"
| "loop_effect _ = False"

text \<open>What the state of \<open>Promise.all\<close> says about the two promises it joins.\<close>

definition join_inv :: "app \<Rightarrow> bool" where
  "join_inv s \<longleftrightarrow>
     (promiseAll s = Some Fulfilled \<longrightarrow>
        promiseModel s = Fulfilled \<and> promiseCamera s = Some Fulfilled) \<and>
     (promiseAll s = Some Pending \<longrightarrow>
        promiseModel s \<noteq> Rejected \<and>
        \<not> (promiseModel s = Fulfilled \<and> promiseCamera s = Some Fulfilled)) \<and>
     (promiseAll s = Some Rejected \<longrightarrow> promiseModel s = Rejected) \<and>
     promiseCamera s \<noteq> Some Rejected"

text \<open>How \<open>promiseCamera\<close> comes to be fulfilled.\<close>

definition camera_inv :: "app \<Rightarrow> bool" where
  "camera_inv s \<longleftrightarrow>
     (promiseCamera s = Some Fulfilled \<longrightarrow>
        getUserMedia s = Some Rejected \<or>
        getUserMedia s = Some Fulfilled \<and> metadataPromise s = Some Fulfilled) \<and>
     (getUserMedia s = Some Rejected \<longrightarrow> promiseCamera s = Some Fulfilled) \<and>
     (metadataPromise s \<noteq> None \<longrightarrow> getUserMedia s = Some Fulfilled)"

text \<open>The bookkeeping of the loop: it runs exactly when \<open>Promise.all\<close> is fulfilled.\<close>

definition loop_inv :: "app \<Rightarrow> bool" where
  "loop_inv s \<longleftrightarrow>
     (0 < detect_count s \<longleftrightarrow> promiseAll s = Some Fulfilled) \<and>
     animation_frames s = (if promiseAll s = Some Fulfilled then 1 else 0) \<and>
     count_list (effects s) RequestAnimationFrame = detect_count s \<and>
     count_list (effects s) ConsoleError = (if promiseAll s = Some Rejected then 1 else 0) \<and>
     (detect_count s = 0 \<longrightarrow> (\<forall>x\<in>set (effects s). \<not> loop_effect x)) \<and>
     set (detecting s) \<subseteq> {..<detect_count s}"

section \<open>Evaluating numbers\<close>

lemma floor_rat_numeral_div: "\<lfloor>numeral a / numeral b :: rat\<rfloor> = numeral a div numeral b"
  using floor_divide_of_int_eq [of "numeral a" "numeral b", where ?'a = rat] by simp

lemma floor_rat_one_div: "\<lfloor>1 / numeral b :: rat\<rfloor> = 1 div numeral b"
  using floor_divide_of_int_eq [of 1 "numeral b", where ?'a = rat] by simp

lemma ceiling_rat_numeral_div:
  "\<lceil>numeral a / numeral b :: rat\<rceil> = - (- numeral a div numeral b)"
  using ceiling_divide_eq_div [of "numeral a" "numeral b", where ?'a = rat] by simp

lemma bits_numeral: "bits (numeral k) = Suc (bits (numeral k div 2))"
  by (subst bits.simps) simp

lemma bits_0: "bits 0 = 0"
  by (simp add: bits.simps)

lemma bits_1: "bits 1 = 1"
  by (simp add: bits.simps)

lemma digit_char_values:
  "digit_char 0 = CHR ''0''" "digit_char 1 = CHR ''1''" "digit_char 2 = CHR ''2''"
  "digit_char 3 = CHR ''3''" "digit_char 4 = CHR ''4''" "digit_char 5 = CHR ''5''"
  "digit_char 6 = CHR ''6''" "digit_char 7 = CHR ''7''" "digit_char 8 = CHR ''8''"
  "digit_char 9 = CHR ''9''"
  by (simp_all add: digit_char_def char_of_def)

lemma digits_numeral:
  "digits (numeral k) =
     (if numeral k < (10::int) then [digit_char (numeral k)]
      else digits (numeral k div 10) @ [digit_char (numeral k mod 10)])"
  by (subst digits.simps) simp

lemma digits_0: "digits 0 = ''0''"
  by (simp add: digits.simps digit_char_values)

lemma digits_1: "digits 1 = ''1''"
  by (simp add: digits.simps digit_char_values)

lemmas js_eval = toFixed2_def round_double_def ilog2_def pow2_def round_half_even_def
  bits_numeral bits_0 bits_1 digits_numeral digits_0 digits_1 digit_char_values Let_def
  parseInt10_def is_space_def is_digit_def digits_value_def js_sub_def
  floor_rat_numeral_div ceiling_rat_numeral_div floor_rat_one_div

text \<open>
  Known values of binary64 arithmetic: the double nearest to 0.1, the sum
  \<open>0.1 + 0.2\<close>, the product \<open>0.57 * 100\<close>, and two ties at \<open>2^53\<close>.
\<close>

lemma round_double_examples:
  "round_double (1 / 10) = Num (3602879701896397 / 36028797018963968)"
  "js_add (round_double (1 / 10)) (round_double (2 / 10)) =
     Num (1351079888211149 / 4503599627370496)"
  "js_mul (round_double (57 / 100)) (Num 100) = Num (8022036836253695 / 140737488355328)"
  "round_double (2 ^ 53 + 1) = Num (2 ^ 53)"
  "round_double (2 ^ 53 + 3) = Num (2 ^ 53 + 4)"
  by (simp_all add: js_eval)

section \<open>Bounds on rounding and the shape of a formatted number\<close>

lemma bits_le: "n < 2 ^ k \<Longrightarrow> bits n \<le> k"
proof (induction k arbitrary: n)
  case 0
  then show ?case by (simp add: bits.simps)
next
  case (Suc k)
  show ?case
  proof (cases "n \<le> 0")
    case True
    then show ?thesis by (simp add: bits.simps)
  next
    case False
    from Suc.prems have "n div 2 < 2 ^ k" by simp
    then have "bits (n div 2) \<le> k" by (rule Suc.IH)
    with False show ?thesis by (subst bits.simps) simp
  qed
qed

lemma ilog2_le_6:
  assumes "a \<le> 100"
  shows "ilog2 a \<le> 6"
proof (cases "1 \<le> a")
  case True
  from assms have "\<lfloor>a\<rfloor> \<le> 100" by (simp add: floor_le_iff)
  then have "\<lfloor>a\<rfloor> < 2 ^ 7" by simp
  then have "bits \<lfloor>a\<rfloor> \<le> 7" by (rule bits_le)
  with True show ?thesis by (simp add: ilog2_def)
next
  case False
  then show ?thesis by (simp add: ilog2_def)
qed

lemma round_half_even_bounds: "\<lfloor>x\<rfloor> \<le> round_half_even x \<and> round_half_even x \<le> \<lfloor>x\<rfloor> + 1"
  by (simp add: round_half_even_def Let_def)

lemma pow2_pos: "0 < pow2 e"
  by (simp add: pow2_def)

lemma pow2_neg_le_1: "e < 0 \<Longrightarrow> pow2 e \<le> 1"
  by (simp add: pow2_def divide_le_eq_1)

lemma round_double_small:
  assumes "0 \<le> x" and "x \<le> 100"
  shows "\<exists>r. round_double x = Num r \<and> 0 \<le> r \<and> r \<le> 101"
proof (cases "x = 0")
  case True
  then show ?thesis by (simp add: round_double_def)
next
  case False
  define e where "e = max (ilog2 x) (- 1022)"
  define ulp where "ulp = pow2 (e - 52)"
  define k where "k = round_half_even (x / ulp)"
  define r where "r = rat_of_int k * ulp"
  have eq: "round_double x = (if pow2 1024 \<le> r then PosInf else Num r)"
    using False assms by (simp add: round_double_def Let_def r_def k_def ulp_def e_def)
  have "e \<le> 6" using ilog2_le_6 [of x] assms by (simp add: e_def)
  then have ulp1: "ulp \<le> 1" by (simp add: ulp_def pow2_neg_le_1)
  have ulp0: "0 < ulp" by (simp add: ulp_def pow2_pos)
  have y0: "0 \<le> x / ulp" using assms ulp0 by simp
  have "\<lfloor>x / ulp\<rfloor> \<le> k" using round_half_even_bounds [of "x / ulp"] by (simp add: k_def)
  moreover have "0 \<le> \<lfloor>x / ulp\<rfloor>" using y0 by simp
  ultimately have k0: "0 \<le> k" by linarith
  have "k \<le> \<lfloor>x / ulp\<rfloor> + 1" using round_half_even_bounds [of "x / ulp"] by (simp add: k_def)
  then have "rat_of_int k \<le> rat_of_int (\<lfloor>x / ulp\<rfloor> + 1)" by (simp only: of_int_le_iff)
  also have "\<dots> \<le> x / ulp + 1" by simp
  finally have "rat_of_int k * ulp \<le> (x / ulp + 1) * ulp"
    using ulp0 by (simp add: mult_right_mono)
  also have "\<dots> = x + ulp" using ulp0 by (simp add: field_simps)
  finally have rle: "r \<le> 101" using assms ulp1 by (simp add: r_def)
  have r0: "0 \<le> r" using k0 ulp0 by (simp add: r_def)
  have "(101::rat) < 2 ^ 1024"
  proof -
    have "(101::rat) < 2 ^ 7" by simp
    also have "\<dots> \<le> 2 ^ 1024" by (rule power_increasing) simp_all
    finally show ?thesis .
  qed
  with rle have "\<not> pow2 1024 \<le> r" by (simp add: pow2_def)
  with eq have "round_double x = Num r" by simp
  with r0 rle show ?thesis by blast
qed

lemma digit_char_is_digit:
  assumes "0 \<le> d" and "d < 10"
  shows "is_digit (digit_char d)"
proof -
  from assms have "d = 0 \<or> d = 1 \<or> d = 2 \<or> d = 3 \<or> d = 4 \<or> d = 5 \<or> d = 6 \<or> d = 7 \<or> d = 8 \<or> d = 9"
    by arith
  then show ?thesis by (auto simp add: digit_char_values is_digit_def)
qed

lemma digits_all_digit: "0 \<le> n \<Longrightarrow> list_all is_digit (digits n)"
proof (induction n rule: digits.induct)
  case (1 n)
  show ?case
  proof (cases "n < 10")
    case True
    with 1 show ?thesis by (subst digits.simps) (simp add: digit_char_is_digit)
  next
    case False
    with 1 have "list_all is_digit (digits (n div 10))" by simp
    moreover have "is_digit (digit_char (n mod 10))" by (rule digit_char_is_digit) simp_all
    ultimately show ?thesis using False by (subst digits.simps) simp
  qed
qed

lemma digits_length_1: "n < 10 \<Longrightarrow> digits n = [digit_char n]"
  by (subst digits.simps) simp

lemma digits_split_last: "10 \<le> n \<Longrightarrow> digits n = digits (n div 10) @ [digit_char (n mod 10)]"
  by (subst digits.simps) simp

lemma digits_nonempty: "digits n \<noteq> []"
  by (subst digits.simps) simp

lemma toFixed2_shape:
  assumes "0 \<le> r" and "r < 10 ^ 21"
  shows "toFixed2 f (Num r) =
           digits (\<lfloor>r * 100 + 1 / 2\<rfloor> div 100) @ ''.'' @
           [digit_char (\<lfloor>r * 100 + 1 / 2\<rfloor> div 10 mod 10), digit_char (\<lfloor>r * 100 + 1 / 2\<rfloor> mod 10)]"
proof -
  define n where "n = \<lfloor>r * 100 + 1 / 2\<rfloor>"
  have n0: "0 \<le> n" using assms by (simp add: n_def)
  have tf: "toFixed2 f (Num r) =
     (let m = digits n; k = length m;
          m' = (if k \<le> 2 then replicate (3 - k) (CHR ''0'') @ m else m);
          k' = length m'
      in take (k' - 2) m' @ ''.'' @ drop (k' - 2) m')"
    using assms by (simp add: toFixed2_def Let_def n_def)
  consider "n < 10" | "10 \<le> n" "n < 100" | "100 \<le> n" by linarith
  then have "toFixed2 f (Num r) =
      digits (n div 100) @ ''.'' @ [digit_char (n div 10 mod 10), digit_char (n mod 10)]"
  proof cases
    case 1
    with n0 show ?thesis
      by (simp add: tf digits_length_1 digit_char_values numeral_3_eq_3 numeral_2_eq_2)
  next
    case 2
    then have "n div 10 < 10" by simp
    with 2 n0 show ?thesis
      by (simp add: tf digits_split_last digits_length_1 digit_char_values)
  next
    case 3
    then have a: "10 \<le> n" and b: "10 \<le> n div 10" by simp_all
    have c: "n div 10 div 10 = n div 100" by (simp add: div_mult2_eq [symmetric])
    have "digits n = digits (n div 100) @ [digit_char (n div 10 mod 10), digit_char (n mod 10)]"
      using digits_split_last [OF a] digits_split_last [OF b] c by simp
    moreover have "digits (n div 100) \<noteq> []" by (rule digits_nonempty)
    ultimately show ?thesis
      by (cases "digits (n div 100)") (simp_all add: tf Let_def)
  qed
  then show ?thesis by (simp add: n_def)
qed

lemma round_to_hundredths:
  "\<bar>rat_of_int \<lfloor>r * 100 + 1 / 2\<rfloor> / 100 - r\<bar> \<le> 1 / 200"
proof -
  define n where "n = rat_of_int \<lfloor>r * 100 + 1 / 2\<rfloor>"
  have "n \<le> r * 100 + 1 / 2" unfolding n_def by (rule of_int_floor_le)
  moreover have "r * 100 + 1 / 2 < n + 1"
    unfolding n_def using floor_correct [of "r * 100 + 1 / 2"] by simp
  ultimately have "\<bar>n / 100 - r\<bar> \<le> 1 / 200" by linarith
  then show ?thesis by (simp only: n_def)
qed

section \<open>The calls the renderer makes\<close>

lemma draw_prediction_attrs:
  "strokeStyle (draw_prediction env c p) = strokeStyle c"
  "lineWidth (draw_prediction env c p) = lineWidth c"
  "textBaseline (draw_prediction env c p) = textBaseline c"
  "font (draw_prediction env c p) = font c"
  "canvas_width (draw_prediction env c p) = canvas_width c"
  "canvas_height (draw_prediction env c p) = canvas_height c"
  by (simp_all add: draw_prediction_def strokeRect_def fillRect_def fillText_def Let_def)

lemma draw_prediction_calls:
  "calls (draw_prediction env c p) =
     calls c @
     [StrokeRect (strokeStyle c) (lineWidth c) (bbox0 p) (bbox1 p) (bbox2 p) (bbox3 p),
      FillRect ''#0F0'' (js_sub (bbox0 p) (js_div (lineWidth c) (Num 2))) (bbox1 p)
        (js_add (measureText env (font c) (predictionText env p)) (lineWidth c))
        (js_neg (parseInt10 (font c))),
      FillText ''#00F'' (font c) (textBaseline c) (predictionText env p) (bbox0 p) (bbox1 p)]"
  by (simp add: draw_prediction_def strokeRect_def fillRect_def fillText_def Let_def)

lemma foldl_draw_prediction_attrs:
  "strokeStyle (foldl (draw_prediction env) c ps) = strokeStyle c \<and>
   lineWidth (foldl (draw_prediction env) c ps) = lineWidth c \<and>
   textBaseline (foldl (draw_prediction env) c ps) = textBaseline c \<and>
   font (foldl (draw_prediction env) c ps) = font c"
  by (induction ps arbitrary: c) (simp_all add: draw_prediction_attrs)

lemma foldl_draw_prediction_calls:
  "calls (foldl (draw_prediction env) c ps) =
     calls c @
     concat (map (\<lambda>p.
       [StrokeRect (strokeStyle c) (lineWidth c) (bbox0 p) (bbox1 p) (bbox2 p) (bbox3 p),
        FillRect ''#0F0'' (js_sub (bbox0 p) (js_div (lineWidth c) (Num 2))) (bbox1 p)
          (js_add (measureText env (font c) (predictionText env p)) (lineWidth c))
          (js_neg (parseInt10 (font c))),
        FillText ''#00F'' (font c) (textBaseline c) (predictionText env p) (bbox0 p) (bbox1 p)])
       ps)"
proof (induction ps arbitrary: c)
  case Nil
  show ?case by simp
next
  case (Cons p ps)
  show ?case
    by (simp add: Cons.IH draw_prediction_attrs draw_prediction_calls)
qed

lemma drawBBox_calls:
  assumes "drawBBox env (Some ctx) ps = Inr ctx'"
  shows "calls ctx' =
     calls ctx @
     ClearRect (Num 0) (Num 0) (Num (of_nat (canvas_width ctx))) (Num (of_nat (canvas_height ctx))) #
     concat (map (\<lambda>p.
       [StrokeRect ''red'' (Num 4) (bbox0 p) (bbox1 p) (bbox2 p) (bbox3 p),
        FillRect ''#0F0'' (js_sub (bbox0 p) (js_div (Num 4) (Num 2))) (bbox1 p)
          (js_add (measureText env ''12px sans-serif'' (predictionText env p)) (Num 4))
          (js_neg (parseInt10 ''12px sans-serif'')),
        FillText ''#00F'' ''12px sans-serif'' ''bottom'' (predictionText env p) (bbox0 p) (bbox1 p)])
       ps)"
  using assms
  by (auto simp add: drawBBox_def Let_def clearRect_def foldl_draw_prediction_calls)

lemma drawBBox_returns: "\<exists>ctx'. drawBBox env (Some ctx) ps = Inr ctx'"
  by (simp add: drawBBox_def Let_def)

text \<open>Numbers and lists the statements about the renderer evaluate.\<close>

lemma half_line_width: "js_div (Num 4) (Num 2) = Num 2"
  by (simp add: js_eval)

lemma height_of_font: "js_neg (parseInt10 ''12px sans-serif'') = Num (- 12)"
  by (simp add: js_eval)

lemma bbox_eta: "(bbox0 p, bbox1 p, bbox2 p, bbox3 p) = bbox p"
  by (simp add: bbox0_def bbox1_def bbox2_def bbox3_def)

lemma stroke_rects_of_calls:
  "[(x, y, w, h). StrokeRect ss lw x y w h \<leftarrow>
      concat (map (\<lambda>p. [StrokeRect a b (bbox0 p) (bbox1 p) (bbox2 p) (bbox3 p),
                         FillRect c (fx p) (fy p) (fw p) (fh p),
                         FillText d e f (g p) (tx p) (ty p)]) ps)] = map bbox ps"
  by (induction ps) (simp_all add: bbox_eta)

lemma fill_rects_of_calls:
  "[(fs, x, y, w, h). FillRect fs x y w h \<leftarrow>
      concat (map (\<lambda>p. [StrokeRect a b (sx p) (sy p) (sw p) (sh p),
                         FillRect c (fx p) (fy p) (fw p) (fh p),
                         FillText d e f (g p) (tx p) (ty p)]) ps)] =
     map (\<lambda>p. (c, fx p, fy p, fw p, fh p)) ps"
  by (induction ps) simp_all

lemma fill_texts_of_calls:
  "[t. FillText fs fnt tb t x y \<leftarrow>
      concat (map (\<lambda>p. [StrokeRect a b (sx p) (sy p) (sw p) (sh p),
                         FillRect c (fx p) (fy p) (fw p) (fh p),
                         FillText d e f (g p) (tx p) (ty p)]) ps)] = map g ps"
  by (induction ps) simp_all

lemma score_97: "round_double (97 / 100) = Num (4368491638549381 / 4503599627370496)"
  by (simp add: js_eval)

lemma percent_97: "js_mul (Num (4368491638549381 / 4503599627370496)) (Num 100) = Num 97"
  by (simp add: js_eval)

lemma fixed_97: "toFixed2 f (Num 97) = ''97.00''"
  by (simp add: js_eval)

lemma score_8345: "round_double (8345 / 10000) = Num (3758253889040679 / 4503599627370496)"
  by (simp add: js_eval)

lemma percent_8345:
  "js_mul (Num (3758253889040679 / 4503599627370496)) (Num 100) =
     Num (5872271701626061 / 70368744177664)"
  by (simp add: js_eval)

lemma fixed_8345: "toFixed2 f (Num (5872271701626061 / 70368744177664)) = ''83.45''"
  by (simp add: js_eval)

lemma parseInt_font: "parseInt10 ''12px sans-serif'' = Num 12"
  by (simp add: js_eval)

lemma small_sums:
  "js_add (Num 72) (Num 4) = Num 76"
  "js_sub (Num 10) (Num 2) = Num 8"
  "js_add (Num 12) (Num 4) = Num 16"
  by (simp_all add: js_eval)

lemma percent_in_range:
  assumes "0 \<le> q" and "q \<le> 1"
  shows "\<exists>r. js_mul (Num q) (Num 100) = Num r \<and> 0 \<le> r \<and> r < 10 ^ 21"
proof -
  from assms have "0 \<le> q * 100" and "q * 100 \<le> 100" by simp_all
  then obtain r where "round_double (q * 100) = Num r" and "0 \<le> r" and "r \<le> 101"
    using round_double_small by blast
  then show ?thesis by auto
qed

section \<open>The invariants hold in every session\<close>

lemma detectionFunction_fields:
  "promiseModel (detectionFunction s) = promiseModel s"
  "getUserMedia (detectionFunction s) = getUserMedia s"
  "metadataPromise (detectionFunction s) = metadataPromise s"
  "promiseCamera (detectionFunction s) = promiseCamera s"
  "promiseAll (detectionFunction s) = promiseAll s"
  "refCanvas (detectionFunction s) = refCanvas s"
  "detect_count (detectionFunction s) = Suc (detect_count s)"
  "animation_frames (detectionFunction s) = Suc (animation_frames s)"
  "detecting (detectionFunction s) = detecting s @ [detect_count s]"
  "effects (detectionFunction s) = effects s @ [ModelDetect (detect_count s), RequestAnimationFrame]"
  by (simp_all add: detectionFunction_def Let_def)

lemma Promise_all_fields:
  "promiseModel (Promise_all s) = promiseModel s"
  "getUserMedia (Promise_all s) = getUserMedia s"
  "metadataPromise (Promise_all s) = metadataPromise s"
  "promiseCamera (Promise_all s) = promiseCamera s"
  "refCanvas (Promise_all s) = refCanvas s"
  "promiseAll (Promise_all s) = None \<longleftrightarrow> promiseAll s = None"
  by (simp_all add: Promise_all_def detectionFunction_fields)

lemma promiseAll_step_None: "promiseAll (step env s e) = None \<longleftrightarrow> promiseAll s = None"
  by (cases e)
    (simp_all add: Promise_all_fields detectionFunction_fields Let_def split: sum.splits)

lemma promiseAll_run_None: "promiseAll (run env s es) = None \<longleftrightarrow> promiseAll s = None"
  unfolding run_def
  by (induction es arbitrary: s) (simp_all only: foldl.simps promiseAll_step_None)

lemma join_inv_step: "join_inv s \<Longrightarrow> join_inv (step env s e)"
  by (cases e)
    (auto simp add: join_inv_def Promise_all_def detectionFunction_fields Let_def split: sum.splits)

lemma camera_inv_step: "camera_inv s \<Longrightarrow> camera_inv (step env s e)"
  by (cases e)
    (auto simp add: camera_inv_def Promise_all_fields detectionFunction_fields Let_def
      split: sum.splits)

lemma loop_inv_step: "loop_inv s \<Longrightarrow> loop_inv (step env s e)"
proof (cases e)
  case (DetectFulfilled i ps)
  assume "loop_inv s"
  with DetectFulfilled show ?thesis
    by (auto simp add: loop_inv_def Let_def split: sum.splits)
next
  case (DetectRejected i)
  assume "loop_inv s"
  with DetectRejected show ?thesis
    by (auto simp add: loop_inv_def)
qed (auto simp add: loop_inv_def Promise_all_def detectionFunction_fields less_Suc_eq)

lemma join_inv_run: "join_inv s \<Longrightarrow> join_inv (run env s es)"
  unfolding run_def
  by (induction es arbitrary: s) (simp_all only: foldl.simps join_inv_step)

lemma camera_inv_run: "camera_inv s \<Longrightarrow> camera_inv (run env s es)"
  unfolding run_def
  by (induction es arbitrary: s) (simp_all only: foldl.simps camera_inv_step)

lemma loop_inv_run: "loop_inv s \<Longrightarrow> loop_inv (run env s es)"
  unfolding run_def
  by (induction es arbitrary: s) (simp_all only: foldl.simps loop_inv_step)

lemma useEffect_inv:
  assumes "useEffect nav (App w h) = Inr s0"
  shows "join_inv s0" and "camera_inv s0" and "loop_inv s0"
  using assms
  by (cases nav;
      auto simp add: useEffect_def App_def Promise_all_def join_inv_def camera_inv_def
        loop_inv_def)+

lemma useEffect_promiseAll:
  assumes "useEffect nav (App w h) = Inr s0"
  shows "promiseAll s0 = None \<longleftrightarrow> nav \<noteq> HasGetUserMedia"
  using assms
  by (cases nav) (auto simp add: useEffect_def App_def Promise_all_def)

lemma run_Cons: "run env s (e # es) = run env (step env s e) es"
  by (simp add: run_def)

lemma run_Nil: "run env s [] = s"
  by (simp add: run_def)

lemma ticks_open_calls:
  assumes "loop_inv s" and "0 < detect_count s"
  shows "detecting (run env s (replicate k AnimationFrame)) =
           detecting s @ [detect_count s ..< detect_count s + k]"
  using assms
proof (induction k arbitrary: s)
  case 0
  then show ?case by (simp add: run_Nil)
next
  case (Suc k)
  define t where "t = step env s AnimationFrame"
  from Suc.prems have fr: "animation_frames s = 1" by (auto simp add: loop_inv_def)
  then have d: "detecting t = detecting s @ [detect_count s]"
    and c: "detect_count t = Suc (detect_count s)"
    by (simp_all add: t_def detectionFunction_fields)
  have "loop_inv t" unfolding t_def using Suc.prems(1) by (rule loop_inv_step)
  moreover have "0 < detect_count t" using c by simp
  ultimately have "detecting (run env t (replicate k AnimationFrame)) =
      detecting t @ [detect_count t ..< detect_count t + k]"
    by (rule Suc.IH)
  moreover have "run env s (replicate (Suc k) AnimationFrame) = run env t (replicate k AnimationFrame)"
    by (simp only: replicate_Suc run_Cons t_def)
  ultimately show ?case by (simp add: d c upt_conv_Cons)
qed

lemma after_effect_inv: "join_inv (after_effect nav w h)" "loop_inv (after_effect nav w h)"
proof -
  have "\<exists>n. useEffect n (App w h) = Inr (after_effect nav w h)"
  proof (cases nav)
    case NoMediaDevices
    then have "useEffect NoGetUserMedia (App w h) = Inr (after_effect nav w h)"
      by (simp add: after_effect_def useEffect_def)
    then show ?thesis ..
  next
    case NoGetUserMedia
    then have "useEffect nav (App w h) = Inr (after_effect nav w h)"
      by (simp add: after_effect_def useEffect_def)
    then show ?thesis ..
  next
    case HasGetUserMedia
    then have "useEffect nav (App w h) = Inr (after_effect nav w h)"
      by (simp add: after_effect_def useEffect_def)
    then show ?thesis ..
  qed
  then obtain n where "useEffect n (App w h) = Inr (after_effect nav w h)" ..
  then show "join_inv (after_effect nav w h)" and "loop_inv (after_effect nav w h)"
    by (rule useEffect_inv)+
qed

lemma after_effect_promiseAll:
  "promiseAll (after_effect nav w h) = None \<longleftrightarrow> nav \<noteq> HasGetUserMedia"
  by (cases nav) (simp_all add: after_effect_def useEffect_def App_def Promise_all_def)

lemma after_effect_mounted: "after_effect HasGetUserMedia w h = mounted w h"
  by (simp add: after_effect_def mounted_def)

lemmas app_eval = mounted_def useEffect_def App_def Promise_all_def detectionFunction_def
  run_def Let_def

section \<open>Initialisation\<close>

text \<open>
  Claim C1: if \<open>getUserMedia\<close> rejects, no render ever occurs, one alert is shown, and
  \<open>detectionFunction\<close> is never invoked in that session. The code does not do this. The
  \<open>catch\<close> callback that logs and alerts returns normally, so \<open>promiseCamera\<close> is
  fulfilled, and once the model has loaded \<open>Promise.all\<close> is fulfilled too: after the
  run below the alert has been shown once, \<open>detectionFunction\<close> has been invoked, a
  call of \<open>model.detect\<close> is open and the next tick is scheduled.
\<close>

theorem camera_denied_loop_starts:
  "useEffect HasGetUserMedia (App 640 480) = Inr (mounted 640 480) \<and>
   effects (run fixed_width_browser (mounted 640 480) [GetUserMediaRejected, ModelLoadFulfilled]) =
     [ConsoleLog, Alert ''Activate your camera and refresh the page!'',
      ModelDetect 0, RequestAnimationFrame] \<and>
   detect_count (run fixed_width_browser (mounted 640 480)
     [GetUserMediaRejected, ModelLoadFulfilled]) = 1 \<and>
   animation_frames (run fixed_width_browser (mounted 640 480)
     [GetUserMediaRejected, ModelLoadFulfilled]) = 1"
  by (simp add: app_eval)

text \<open>
  Claim C2: in whatever order the two answers come, \<open>detectionFunction\<close> (and so
  \<open>drawBBox\<close>) is first invoked only after the model has loaded and the camera is ready,
  its metadata loaded. The code does not keep this where the camera is refused: the
  \<open>catch\<close> callback fulfils \<open>promiseCamera\<close>, and when the model has loaded
  \<open>detectionFunction\<close> is invoked although no stream was attached, no handler for
  \<open>loadedmetadata\<close> was installed and no metadata ever loaded. It is the defect of
  claim C1, seen from the side of the camera.
\<close>

theorem detection_without_camera_ready:
  "ModelDetect 0 \<in> set (effects (run fixed_width_browser (mounted 640 480)
       [GetUserMediaRejected, ModelLoadFulfilled])) \<and>
   getUserMedia (run fixed_width_browser (mounted 640 480)
       [GetUserMediaRejected, ModelLoadFulfilled]) = Some Rejected \<and>
   metadataPromise (run fixed_width_browser (mounted 640 480)
       [GetUserMediaRejected, ModelLoadFulfilled]) = None \<and>
   promiseCamera (run fixed_width_browser (mounted 640 480)
       [GetUserMediaRejected, ModelLoadFulfilled]) = Some Fulfilled \<and>
   promiseAll (run fixed_width_browser (mounted 640 480)
       [GetUserMediaRejected, ModelLoadFulfilled]) = Some Fulfilled"
  by (simp add: app_eval)

text \<open>
  What the join does guarantee, in every order of the events: the loop starts only when
  the promise of the model and \<open>promiseCamera\<close> are both fulfilled, and where the camera
  was not refused \<open>promiseCamera\<close> is fulfilled only by the \<open>loadedmetadata\<close> event.
\<close>

theorem detection_only_after_both_ready:
  assumes "useEffect nav (App w h) = Inr s0"
    and "ModelDetect i \<in> set (effects (run env s0 es)) \<or>
         DrawBBox ps \<in> set (effects (run env s0 es))"
  shows "promiseModel (run env s0 es) = Fulfilled \<and>
         promiseCamera (run env s0 es) = Some Fulfilled \<and>
         promiseAll (run env s0 es) = Some Fulfilled \<and>
         (getUserMedia (run env s0 es) \<noteq> Some Rejected \<longrightarrow>
            getUserMedia (run env s0 es) = Some Fulfilled \<and>
            metadataPromise (run env s0 es) = Some Fulfilled)"
proof -
  let ?s = "run env s0 es"
  have l: "loop_inv ?s" and j: "join_inv ?s" and c: "camera_inv ?s"
    using useEffect_inv [OF assms(1)] by (simp_all add: loop_inv_run join_inv_run camera_inv_run)
  have "loop_effect (ModelDetect i)" and "loop_effect (DrawBBox ps)" by simp_all
  with assms(2) have "\<exists>x\<in>set (effects ?s). loop_effect x" by blast
  with l have "0 < detect_count ?s" by (auto simp add: loop_inv_def)
  with l have a: "promiseAll ?s = Some Fulfilled" by (simp add: loop_inv_def)
  with j have b: "promiseModel ?s = Fulfilled \<and> promiseCamera ?s = Some Fulfilled"
    by (simp add: join_inv_def)
  with c have "getUserMedia ?s = Some Rejected \<or>
      getUserMedia ?s = Some Fulfilled \<and> metadataPromise ?s = Some Fulfilled"
    by (simp add: camera_inv_def)
  with a b show ?thesis by auto
qed

text \<open>The model loads first, then the camera is granted and its metadata arrive.\<close>

theorem detection_only_after_both_ready_witness:
  "ModelDetect 0 \<in> set (effects (run fixed_width_browser (mounted 640 480)
       [ModelLoadFulfilled, GetUserMediaFulfilled, LoadedMetadata])) \<and>
   promiseModel (run fixed_width_browser (mounted 640 480)
       [ModelLoadFulfilled, GetUserMediaFulfilled, LoadedMetadata]) = Fulfilled \<and>
   promiseCamera (run fixed_width_browser (mounted 640 480)
       [ModelLoadFulfilled, GetUserMediaFulfilled, LoadedMetadata]) = Some Fulfilled \<and>
   metadataPromise (run fixed_width_browser (mounted 640 480)
       [ModelLoadFulfilled, GetUserMediaFulfilled, LoadedMetadata]) = Some Fulfilled"
proof -
  have h1: "useEffect HasGetUserMedia (App 640 480) = Inr (mounted 640 480)"
    by (simp add: app_eval)
  have h2: "ModelDetect 0 \<in> set (effects (run fixed_width_browser (mounted 640 480)
       [ModelLoadFulfilled, GetUserMediaFulfilled, LoadedMetadata]))"
    by (simp add: app_eval)
  have h3: "getUserMedia (run fixed_width_browser (mounted 640 480)
       [ModelLoadFulfilled, GetUserMediaFulfilled, LoadedMetadata]) \<noteq> Some Rejected"
    by (simp add: app_eval)
  from detection_only_after_both_ready [OF h1 disjI1, OF h2] h2 h3 show ?thesis by blast
qed

text \<open>
  Claim C9, amended: where \<open>getUserMedia\<close> exists, so that the effect joins the two
  promises, a rejected model load is logged by \<open>console.error\<close>, once; and in every
  browser, with \<open>getUserMedia\<close>, without it, or without \<open>navigator.mediaDevices\<close>
  altogether, the loop never starts after it: \<open>detectionFunction\<close> is not invoked, no
  frame is requested and \<open>drawBBox\<close> is not called.
\<close>

theorem model_load_rejected_no_loop:
  assumes "promiseModel (run env (after_effect nav w h) es) = Rejected"
  shows "(nav = HasGetUserMedia \<longrightarrow>
            count_list (effects (run env (after_effect nav w h) es)) ConsoleError = 1) \<and>
         detect_count (run env (after_effect nav w h) es) = 0 \<and>
         animation_frames (run env (after_effect nav w h) es) = 0 \<and>
         ModelDetect i \<notin> set (effects (run env (after_effect nav w h) es)) \<and>
         RequestAnimationFrame \<notin> set (effects (run env (after_effect nav w h) es)) \<and>
         DrawBBox ps \<notin> set (effects (run env (after_effect nav w h) es))"
proof -
  let ?s = "run env (after_effect nav w h) es"
  have l: "loop_inv ?s" and j: "join_inv ?s"
    using after_effect_inv [of nav w h] by (simp_all add: loop_inv_run join_inv_run)
  from j assms have nf: "promiseAll ?s \<noteq> Some Fulfilled" and np: "promiseAll ?s \<noteq> Some Pending"
    by (auto simp add: join_inv_def)
  from l nf have d: "detect_count ?s = 0" and f: "animation_frames ?s = 0"
    by (simp_all add: loop_inv_def)
  from l d have e: "\<forall>x\<in>set (effects ?s). \<not> loop_effect x" by (simp add: loop_inv_def)
  have "count_list (effects ?s) ConsoleError = 1" if "nav = HasGetUserMedia"
  proof -
    from that have "promiseAll ?s \<noteq> None"
      by (simp add: promiseAll_run_None after_effect_promiseAll)
    with nf np have "promiseAll ?s = Some Rejected"
      by (cases "promiseAll ?s") (auto intro: promise.exhaust)
    with l show ?thesis by (simp add: loop_inv_def)
  qed
  moreover from e have "ModelDetect i \<notin> set (effects ?s)"
    and "RequestAnimationFrame \<notin> set (effects ?s)" and "DrawBBox ps \<notin> set (effects ?s)"
    by auto
  ultimately show ?thesis using d f by blast
qed

text \<open>
  The camera is granted, the model fails to load, and the browser goes on delivering
  events.
\<close>

theorem model_load_rejected_no_loop_witness:
  "promiseModel (run fixed_width_browser (mounted 640 480)
      [GetUserMediaFulfilled, ModelLoadRejected, LoadedMetadata, AnimationFrame]) = Rejected \<and>
   count_list (effects (run fixed_width_browser (mounted 640 480)
      [GetUserMediaFulfilled, ModelLoadRejected, LoadedMetadata, AnimationFrame])) ConsoleError = 1 \<and>
   detect_count (run fixed_width_browser (mounted 640 480)
      [GetUserMediaFulfilled, ModelLoadRejected, LoadedMetadata, AnimationFrame]) = 0 \<and>
   promiseModel (run fixed_width_browser (after_effect NoMediaDevices 640 480)
      [ModelLoadRejected, AnimationFrame]) = Rejected \<and>
   detect_count (run fixed_width_browser (after_effect NoMediaDevices 640 480)
      [ModelLoadRejected, AnimationFrame]) = 0"
proof -
  have h: "promiseModel (run fixed_width_browser (after_effect HasGetUserMedia 640 480)
      [GetUserMediaFulfilled, ModelLoadRejected, LoadedMetadata, AnimationFrame]) = Rejected"
    by (simp add: after_effect_def app_eval)
  have k: "promiseModel (run fixed_width_browser (after_effect NoMediaDevices 640 480)
      [ModelLoadRejected, AnimationFrame]) = Rejected"
    by (simp add: after_effect_def app_eval)
  from model_load_rejected_no_loop [OF h] model_load_rejected_no_loop [OF k] h k
  show ?thesis by (simp add: after_effect_mounted)
qed

text \<open>
  The claim without its amendment fails in a browser whose \<open>navigator.mediaDevices\<close> has
  no \<open>getUserMedia\<close>: the guard of the effect skips \<open>Promise.all\<close>, and the rejection of
  the model load reaches no handler of the component.
\<close>

theorem model_rejection_unlogged_counterexample:
  "useEffect NoGetUserMedia (App 640 480) = Inr (App 640 480) \<and>
   promiseModel (run fixed_width_browser (App 640 480) [ModelLoadRejected]) = Rejected \<and>
   effects (run fixed_width_browser (App 640 480) [ModelLoadRejected]) = []"
  by (simp add: app_eval)

section \<open>The detection loop\<close>

text \<open>
  Claim C3, amended: on every tick \<open>detectionFunction\<close> first issues the call of
  \<open>model.detect\<close> and then, without waiting for that call to settle, schedules the next
  tick by \<open>requestAnimationFrame\<close>; once the loop runs a frame is always scheduled,
  whatever calls are open, and \<open>k\<close> ticks during which no call settles leave \<open>k\<close> more
  calls in flight.
\<close>

theorem tick_detects_then_schedules:
  assumes "useEffect nav (App w h) = Inr s0"
    and "0 < detect_count (run env s0 es)"
  shows "effects (detectionFunction t) =
           effects t @ [ModelDetect (detect_count t), RequestAnimationFrame] \<and>
         detecting (detectionFunction t) = detecting t @ [detect_count t] \<and>
         animation_frames (detectionFunction t) = Suc (animation_frames t) \<and>
         animation_frames (run env s0 es) = 1 \<and>
         detecting (run env (run env s0 es) (replicate k AnimationFrame)) =
           detecting (run env s0 es) @
           [detect_count (run env s0 es) ..< detect_count (run env s0 es) + k]"
proof -
  have l: "loop_inv (run env s0 es)"
    using useEffect_inv(3) [OF assms(1)] by (rule loop_inv_run)
  with assms(2) have "animation_frames (run env s0 es) = 1" by (simp add: loop_inv_def)
  moreover note ticks_open_calls [OF l assms(2), of env k]
  ultimately show ?thesis by (simp add: detectionFunction_fields)
qed

text \<open>Two ticks after the loop has started, three calls are in flight.\<close>

theorem tick_detects_then_schedules_witness:
  "0 < detect_count (run fixed_width_browser (mounted 640 480)
      [GetUserMediaFulfilled, LoadedMetadata, ModelLoadFulfilled]) \<and>
   detecting (run fixed_width_browser
      (run fixed_width_browser (mounted 640 480)
         [GetUserMediaFulfilled, LoadedMetadata, ModelLoadFulfilled])
      (replicate 2 AnimationFrame)) = [0, 1, 2]"
proof -
  have h1: "useEffect HasGetUserMedia (App 640 480) = Inr (mounted 640 480)"
    by (simp add: app_eval)
  have h2: "0 < detect_count (run fixed_width_browser (mounted 640 480)
      [GetUserMediaFulfilled, LoadedMetadata, ModelLoadFulfilled])"
    by (simp add: app_eval)
  have h3: "detect_count (run fixed_width_browser (mounted 640 480)
      [GetUserMediaFulfilled, LoadedMetadata, ModelLoadFulfilled]) = 1"
    and h4: "detecting (run fixed_width_browser (mounted 640 480)
      [GetUserMediaFulfilled, LoadedMetadata, ModelLoadFulfilled]) = [0]"
    by (simp_all add: app_eval)
  from tick_detects_then_schedules [OF h1 h2, of "mounted 640 480" 2]
  have "detecting (run fixed_width_browser
      (run fixed_width_browser (mounted 640 480)
         [GetUserMediaFulfilled, LoadedMetadata, ModelLoadFulfilled])
      (replicate 2 AnimationFrame)) = [0] @ [1 ..< 1 + 2]"
    by (simp only: h3 h4)
  also have "[0] @ [1 ..< 1 + 2] = [0, 1, 2::nat]" by (simp add: upt_conv_Cons)
  finally show ?thesis using h2 by blast
qed

text \<open>
  The order the specification gives, scheduling first and detection second, is not the
  order of the code: the first thing the first tick does is the call of \<open>model.detect\<close>.
\<close>

theorem schedule_first_counterexample:
  "effects (run fixed_width_browser (mounted 640 480)
      [GetUserMediaFulfilled, LoadedMetadata, ModelLoadFulfilled]) =
     [ModelDetect 0, RequestAnimationFrame] \<and>
   hd (effects (run fixed_width_browser (mounted 640 480)
      [GetUserMediaFulfilled, LoadedMetadata, ModelLoadFulfilled])) \<noteq> RequestAnimationFrame"
  by (simp add: app_eval)

text \<open>
  Claim C10: every invocation of \<open>detectionFunction\<close> makes exactly one call of
  \<open>requestAnimationFrame\<close>, whatever becomes of its call of \<open>model.detect\<close>; over a
  whole session the scheduling calls are as many as the invocations, at most one frame is
  pending at any time, and once the loop runs exactly one is, before and after every tick.
\<close>

theorem one_scheduling_call_per_invocation:
  assumes "useEffect nav (App w h) = Inr s0"
  shows "count_list (effects (detectionFunction t)) RequestAnimationFrame =
           Suc (count_list (effects t) RequestAnimationFrame) \<and>
         animation_frames (detectionFunction t) = Suc (animation_frames t) \<and>
         count_list (effects (run env s0 es)) RequestAnimationFrame = detect_count (run env s0 es) \<and>
         animation_frames (run env s0 es) \<le> 1 \<and>
         (0 < detect_count (run env s0 es) \<longrightarrow>
            animation_frames (run env s0 es) = 1 \<and>
            animation_frames (step env (run env s0 es) AnimationFrame) = 1)"
proof -
  let ?s = "run env s0 es"
  have l: "loop_inv ?s"
    using useEffect_inv(3) [OF assms(1)] by (rule loop_inv_run)
  then have l': "loop_inv (step env ?s AnimationFrame)" by (rule loop_inv_step)
  have c: "detect_count ?s \<le> detect_count (step env ?s AnimationFrame)"
    by (simp add: detectionFunction_fields)
  from l have "count_list (effects ?s) RequestAnimationFrame = detect_count ?s"
    and "animation_frames ?s \<le> 1"
    and "0 < detect_count ?s \<longrightarrow> animation_frames ?s = 1"
    by (simp_all add: loop_inv_def)
  moreover from l' c have "0 < detect_count ?s \<longrightarrow>
      animation_frames (step env ?s AnimationFrame) = 1"
    by (auto simp add: loop_inv_def simp del: step.simps)
  ultimately show ?thesis by (simp add: detectionFunction_fields del: step.simps)
qed

text \<open>
  Three invocations, the first call of the detector rejected between the second and the
  third.
\<close>

theorem one_scheduling_call_per_invocation_witness:
  "useEffect HasGetUserMedia (App 640 480) = Inr (mounted 640 480) \<and>
   count_list (effects (run fixed_width_browser (mounted 640 480)
      [GetUserMediaFulfilled, LoadedMetadata, ModelLoadFulfilled, AnimationFrame,
       DetectRejected 0, AnimationFrame])) RequestAnimationFrame = 3 \<and>
   animation_frames (run fixed_width_browser (mounted 640 480)
      [GetUserMediaFulfilled, LoadedMetadata, ModelLoadFulfilled, AnimationFrame,
       DetectRejected 0, AnimationFrame]) = 1"
proof -
  have h1: "useEffect HasGetUserMedia (App 640 480) = Inr (mounted 640 480)"
    by (simp add: app_eval)
  have h2: "detect_count (run fixed_width_browser (mounted 640 480)
      [GetUserMediaFulfilled, LoadedMetadata, ModelLoadFulfilled, AnimationFrame,
       DetectRejected 0, AnimationFrame]) = 3"
    by (simp add: app_eval)
  from one_scheduling_call_per_invocation [OF h1, of "mounted 640 480" fixed_width_browser
      "[GetUserMediaFulfilled, LoadedMetadata, ModelLoadFulfilled, AnimationFrame,
       DetectRejected 0, AnimationFrame]"] h1 h2
  show ?thesis by simp
qed

section \<open>The overlay renderer\<close>

text \<open>
  Claim C7: for every list of predictions \<open>drawBBox\<close> returns, and the calls it adds to
  the context are, in this order, one \<open>clearRect\<close> over the whole canvas and then, for
  each prediction in the order of the list, the outline by \<open>strokeRect\<close>, the label
  background by \<open>fillRect\<close> and the label by \<open>fillText\<close>. Nothing is drawn before the
  clearing.
\<close>

theorem clear_then_draw_in_order:
  "\<exists>ctx'. drawBBox env (Some ctx) ps = Inr ctx' \<and>
     calls ctx' = calls ctx @
       ClearRect (Num 0) (Num 0) (Num (of_nat (canvas_width ctx)))
         (Num (of_nat (canvas_height ctx))) #
       concat (map (\<lambda>p.
         [StrokeRect ''red'' (Num 4) (bbox0 p) (bbox1 p) (bbox2 p) (bbox3 p),
          FillRect ''#0F0'' (js_sub (bbox0 p) (Num 2)) (bbox1 p)
            (js_add (measureText env ''12px sans-serif'' (predictionText env p)) (Num 4))
            (Num (- 12)),
          FillText ''#00F'' ''12px sans-serif'' ''bottom'' (predictionText env p)
            (bbox0 p) (bbox1 p)]) ps)"
proof -
  obtain ctx' where r: "drawBBox env (Some ctx) ps = Inr ctx'"
    using drawBBox_returns by blast
  from drawBBox_calls [OF r] r show ?thesis
    by (simp only: half_line_width height_of_font) blast
qed

text \<open>
  Claim C8: on the empty list \<open>drawBBox\<close> adds the clearing of the whole canvas and
  nothing else, no stroke, no fill and no text.
\<close>

theorem empty_list_clears_only:
  "\<exists>ctx'. drawBBox env (Some ctx) [] = Inr ctx' \<and>
     calls ctx' = calls ctx @
       [ClearRect (Num 0) (Num 0) (Num (of_nat (canvas_width ctx)))
          (Num (of_nat (canvas_height ctx)))]"
proof -
  obtain ctx' where r: "drawBBox env (Some ctx) [] = Inr ctx'"
    using drawBBox_returns by blast
  from drawBBox_calls [OF r] r show ?thesis by simp
qed

text \<open>
  Claim C4: the rectangles handed to \<open>strokeRect\<close> are, in order, the \<open>bbox\<close> of the
  predictions as they came in: nothing is clamped, scaled or rounded.
\<close>

theorem outline_equals_bbox:
  "\<exists>ctx'. drawBBox env (Some ctx) ps = Inr ctx' \<and>
     [(x, y, w, h). StrokeRect ss lw x y w h \<leftarrow> drop (length (calls ctx)) (calls ctx')] =
       map bbox ps"
proof -
  obtain ctx' where r: "drawBBox env (Some ctx) ps = Inr ctx'"
    using drawBBox_returns by blast
  have "[(x, y, w, h). StrokeRect ss lw x y w h \<leftarrow> drop (length (calls ctx)) (calls ctx')] =
       map bbox ps"
    unfolding drawBBox_calls [OF r] by (simp add: stroke_rects_of_calls)
  with r show ?thesis by blast
qed

text \<open>
  Claim C5, amended: for every prediction \<open>drawBBox\<close> fills a rectangle in \<open>#0F0\<close>
  whose corner is half the line width (2) to the left of the top-left corner of the
  outline, at the height of that corner, whose width is the measured width of the label
  plus the line width (4), and whose height is minus the pixel size read off the font
  (12): it reaches upwards from the top edge of the outline by the size of the font, with
  nothing added.
\<close>

theorem label_background_geometry:
  "\<exists>ctx'. drawBBox env (Some ctx) ps = Inr ctx' \<and>
     [(fs, x, y, w, h). FillRect fs x y w h \<leftarrow> drop (length (calls ctx)) (calls ctx')] =
       map (\<lambda>p. (''#0F0'', js_sub (bbox0 p) (Num 2), bbox1 p,
                  js_add (measureText env ''12px sans-serif'' (predictionText env p)) (Num 4),
                  Num (- 12))) ps"
proof -
  obtain ctx' where r: "drawBBox env (Some ctx) ps = Inr ctx'"
    using drawBBox_returns by blast
  have "[(fs, x, y, w, h). FillRect fs x y w h \<leftarrow> drop (length (calls ctx)) (calls ctx')] =
       map (\<lambda>p. (''#0F0'', js_sub (bbox0 p) (Num 2), bbox1 p,
                  js_add (measureText env ''12px sans-serif'' (predictionText env p)) (Num 4),
                  Num (- 12))) ps"
    unfolding drawBBox_calls [OF r] half_line_width height_of_font
    by (simp add: fill_rects_of_calls)
  with r show ?thesis by blast
qed

text \<open>
  The specification adds the padding to the height as well. For one person detected with
  score 0.97 in the box (10, 20, 100, 200), the calls are the ones below; the height of
  the filled rectangle is -12, the size of the font is 12, and with the padding of 4 the
  height would be 16 or -16.
\<close>

theorem label_background_height_counterexample:
  "map_sum id calls
     (drawBBox fixed_width_browser (refCanvas (App 640 480))
        [\<lparr>class_name = ''person'', score = round_double (97 / 100),
          bbox = (Num 10, Num 20, Num 100, Num 200)\<rparr>]) =
   Inr [ClearRect (Num 0) (Num 0) (Num 640) (Num 480),
        StrokeRect ''red'' (Num 4) (Num 10) (Num 20) (Num 100) (Num 200),
        FillRect ''#0F0'' (Num 8) (Num 20) (Num 76) (Num (- 12)),
        FillText ''#00F'' ''12px sans-serif'' ''bottom'' ''person 97.00'' (Num 10) (Num 20)] \<and>
   parseInt10 ''12px sans-serif'' = Num 12 \<and>
   Num (- 12) \<noteq> js_add (parseInt10 ''12px sans-serif'') (Num 4) \<and>
   Num (- 12) \<noteq> js_neg (js_add (parseInt10 ''12px sans-serif'') (Num 4))"
proof -
  have t: "predictionText fixed_width_browser
      \<lparr>class_name = ''person'', score = round_double (97 / 100),
       bbox = (Num 10, Num 20, Num 100, Num 200)\<rparr> = ''person 97.00''"
    by (simp add: predictionText_def score_97 percent_97 fixed_97 del: js_mul.simps)
  have w: "measureText fixed_width_browser ''12px sans-serif'' ''person 97.00'' = Num 72"
    by (simp add: fixed_width_browser_def)
  show ?thesis
    by (simp add: drawBBox_def App_def clearRect_def foldl_draw_prediction_calls
        draw_prediction_calls t w bbox0_def bbox1_def bbox2_def bbox3_def
        half_line_width height_of_font parseInt_font small_sums Let_def
        del: js_add.simps js_div.simps js_mul.simps)
qed

text \<open>
  Claim C6: the label handed to \<open>fillText\<close> is the class, one space, and
  \<open>(score * 100).toFixed(2)\<close>. For a score from 0 to 1 the product is finite, and its
  formatting is the digits of an integer part, a point, and exactly two digits, which
  read as the multiple of 0.01 nearest to the product, zeros included. The double
  nearest to 0.8345 gives \<open>83.45\<close>, the one nearest to 0.97 gives \<open>97.00\<close>.
\<close>

theorem label_text_format:
  "(\<exists>ctx'. drawBBox env (Some ctx) ps = Inr ctx' \<and>
      [t. FillText fs fnt tb t x y \<leftarrow> drop (length (calls ctx)) (calls ctx')] =
        map (\<lambda>p. class_name p @ '' '' @
                  toFixed2 (numberToString env) (js_mul (score p) (Num 100))) ps) \<and>
   (\<forall>q. 0 \<le> q \<and> q \<le> 1 \<longrightarrow>
      (\<exists>r n. js_mul (Num q) (Num 100) = Num r \<and> n = \<lfloor>r * 100 + 1 / 2\<rfloor> \<and>
         toFixed2 f (Num r) =
           digits (n div 100) @ ''.'' @ [digit_char (n div 10 mod 10), digit_char (n mod 10)] \<and>
         list_all is_digit (digits (n div 100)) \<and>
         is_digit (digit_char (n div 10 mod 10)) \<and> is_digit (digit_char (n mod 10)) \<and>
         \<bar>of_int n / 100 - r\<bar> \<le> 1 / 200)) \<and>
   toFixed2 f (js_mul (round_double (8345 / 10000)) (Num 100)) = ''83.45'' \<and>
   toFixed2 f (js_mul (round_double (97 / 100)) (Num 100)) = ''97.00''"
proof (intro conjI allI impI)
  obtain ctx' where r: "drawBBox env (Some ctx) ps = Inr ctx'"
    using drawBBox_returns by blast
  have "[t. FillText fs fnt tb t x y \<leftarrow> drop (length (calls ctx)) (calls ctx')] =
        map (\<lambda>p. class_name p @ '' '' @
                  toFixed2 (numberToString env) (js_mul (score p) (Num 100))) ps"
    unfolding drawBBox_calls [OF r] by (simp add: fill_texts_of_calls predictionText_def)
  with r show "\<exists>ctx'. drawBBox env (Some ctx) ps = Inr ctx' \<and>
      [t. FillText fs fnt tb t x y \<leftarrow> drop (length (calls ctx)) (calls ctx')] =
        map (\<lambda>p. class_name p @ '' '' @
                  toFixed2 (numberToString env) (js_mul (score p) (Num 100))) ps"
    by blast
next
  fix q :: rat
  assume "0 \<le> q \<and> q \<le> 1"
  then obtain r where m: "js_mul (Num q) (Num 100) = Num r" and r0: "0 \<le> r" and r1: "r < 10 ^ 21"
    using percent_in_range by blast
  define n where "n = \<lfloor>r * 100 + 1 / 2\<rfloor>"
  from r0 have n0: "0 \<le> n" by (simp add: n_def)
  have "toFixed2 f (Num r) =
      digits (n div 100) @ ''.'' @ [digit_char (n div 10 mod 10), digit_char (n mod 10)]"
    unfolding n_def using r0 r1 by (rule toFixed2_shape)
  moreover from n0 have "list_all is_digit (digits (n div 100))"
    by (simp add: digits_all_digit pos_imp_zdiv_nonneg_iff)
  moreover have "is_digit (digit_char (n div 10 mod 10))" and "is_digit (digit_char (n mod 10))"
    by (simp_all add: digit_char_is_digit)
  moreover have "\<bar>of_int n / 100 - r\<bar> \<le> 1 / 200"
    unfolding n_def by (rule round_to_hundredths)
  ultimately show "\<exists>r n. js_mul (Num q) (Num 100) = Num r \<and> n = \<lfloor>r * 100 + 1 / 2\<rfloor> \<and>
         toFixed2 f (Num r) =
           digits (n div 100) @ ''.'' @ [digit_char (n div 10 mod 10), digit_char (n mod 10)] \<and>
         list_all is_digit (digits (n div 100)) \<and>
         is_digit (digit_char (n div 10 mod 10)) \<and> is_digit (digit_char (n mod 10)) \<and>
         \<bar>of_int n / 100 - r\<bar> \<le> 1 / 200"
    using m n_def by blast
next
  show "toFixed2 f (js_mul (round_double (8345 / 10000)) (Num 100)) = ''83.45''"
    by (simp only: score_8345 percent_8345 fixed_8345)
next
  show "toFixed2 f (js_mul (round_double (97 / 100)) (Num 100)) = ''97.00''"
    by (simp only: score_97 percent_97 fixed_97)
qed

text \<open>The score 0.97, as the double it is.\<close>

theorem label_text_format_witness:
  "(0::rat) \<le> 4368491638549381 / 4503599627370496 \<and>
   (4368491638549381 / 4503599627370496 :: rat) \<le> 1 \<and>
   (\<exists>r n. js_mul (Num (4368491638549381 / 4503599627370496)) (Num 100) = Num r \<and>
      n = \<lfloor>r * 100 + 1 / 2\<rfloor> \<and>
      toFixed2 (numberToString fixed_width_browser) (Num r) =
        digits (n div 100) @ ''.'' @ [digit_char (n div 10 mod 10), digit_char (n mod 10)] \<and>
      \<bar>of_int n / 100 - r\<bar> \<le> 1 / 200)"
proof -
  have h: "(0::rat) \<le> 4368491638549381 / 4503599627370496 \<and>
      (4368491638549381 / 4503599627370496 :: rat) \<le> 1"
    by simp
  from label_text_format [of fixed_width_browser "the (refCanvas (App 640 480))" "[]" "numberToString fixed_width_browser",
      THEN conjunct2, THEN conjunct1, rule_format, OF h] h
  show ?thesis by blast
qed

end
